theory Spec2Isabelle
  imports Main "HOL-Library.Sublist"
begin

section \<open>The retrying invoker: \<open>generate_content_with_retry\<close>\<close>

text \<open>
  The source is \<^verbatim>\<open>gemini_run_script.py\<close>. Python integers are \<open>int\<close>, Python strings
  are \<open>string\<close>. The six markers searched by the source are ASCII, so looking for
  them in the bytes of a message finds exactly what Python finds in its code points.

  The model makes the effects of the source explicit as a trace of events: every remote
  call, every \<^verbatim>\<open>time.sleep\<close> that returned and every line printed, in program order.
  A function returns its value (or the exception it raises) together with the events
  it produced.
\<close>

subsection \<open>Module constants\<close>

text \<open>
  \<^verbatim>\<open>MAX_RETRIES\<close> and \<^verbatim>\<open>INITIAL_DELAY\<close> (lines 12-13) are the defaults of
  \<^verbatim>\<open>generate_content_with_retry\<close>, and the only call of that function (line 129) passes
  neither argument. The batch functions below take the two constants as a record, so
  that what the program does under other values of them can be stated;
  \<open>module_constants\<close> holds the values the file has.
\<close>

record constants =
  MAX_RETRIES :: int
  INITIAL_DELAY :: int

definition module_constants :: constants where
  "module_constants = \<lparr>MAX_RETRIES = 5, INITIAL_DELAY = 2\<rparr>"

subsection \<open>Exceptions, remote outcomes, events\<close>

text \<open>
  \<open>RemoteError m\<close> is an exception raised by \<^verbatim>\<open>client.models.generate_content\<close>,
  with \<open>m\<close> its \<^verbatim>\<open>str(e)\<close>; the source looks at nothing else of it. The other
  constructors are the exceptions the interpreter and the libraries raise at the places
  named in the definitions below. All of them derive from \<^verbatim>\<open>Exception\<close>, except
  \<open>KeyboardInterrupt\<close>, which derives from \<^verbatim>\<open>BaseException\<close> only: the handlers of
  the source, all of them \<^verbatim>\<open>except Exception\<close>, do not catch it.
\<close>

datatype exn =
    RemoteError string
  | ValueError
  | OverflowError
  | KeyboardInterrupt
  | AttributeError
  | TypeError
  | JSONDecodeError
  | ClientError
  | ImageError

text \<open>What one call of \<^verbatim>\<open>client.models.generate_content\<close> does.\<close>

datatype 'r outcome = Returns 'r | Raises string

datatype event =
    RemoteCall nat                  \<comment> \<open>line 24, the attempt index\<close>
  | LogRetry nat int string int     \<comment> \<open>lines 45-47: attempt + 1, max_retries, e, delay\<close>
  | Slept int                       \<comment> \<open>line 48, the sleep returned\<close>
  | LogRetryFailed int              \<comment> \<open>line 51\<close>
  | LogFatal string                 \<comment> \<open>line 54\<close>
  | LogNotFound string              \<comment> \<open>line 82\<close>
  | LogTokens "nat option"          \<comment> \<open>line 133, total_token_count\<close>
  | LogItemError string exn         \<comment> \<open>line 146\<close>
  | LogStart nat                    \<comment> \<open>line 153\<close>
  | LogProcessing nat nat string    \<comment> \<open>line 156: i + 1, len(image_paths), image_path\<close>
  | LogSuccess nat                  \<comment> \<open>line 162\<close>
  | LogSkip                         \<comment> \<open>line 164\<close>
  | LogComplete nat nat string      \<comment> \<open>lines 172-175\<close>
  | LogSaveError                    \<comment> \<open>line 177\<close>

subsection \<open>Classification by message text (lines 32-41)\<close>

text \<open>Python's \<^verbatim>\<open>sub in s\<close> on strings.\<close>

fun py_in :: "string \<Rightarrow> string \<Rightarrow> bool" where
  "py_in sub [] = (sub = [])"
| "py_in sub (c # cs) = (prefix sub (c # cs) \<or> py_in sub cs)"

definition is_retriable_error :: "string \<Rightarrow> bool" where
  "is_retriable_error error_message =
     (py_in ''RESOURCE_EXHAUSTED'' error_message \<or>
      py_in ''429'' error_message \<or>
      py_in ''InternalServerError'' error_message \<or>
      py_in ''500'' error_message \<or>
      py_in ''ServiceUnavailable'' error_message \<or>
      py_in ''503'' error_message)"

subsection \<open>The log line and the sleep of lines 45-48\<close>

text \<open>
  The delay is an integer. The format \<^verbatim>\<open>{delay:.1f}\<close> of line 47 converts it to a
  float, which raises \<^verbatim>\<open>OverflowError\<close> when the integer rounds to \<open>2 ^ 1024\<close> or
  beyond.
\<close>

definition format_overflows :: "int \<Rightarrow> bool" where
  "format_overflows delay = (2 ^ 1024 - 2 ^ 970 \<le> \<bar>delay\<bar>)"

text \<open>
  \<^verbatim>\<open>time.sleep\<close> turns an integer number of seconds into a signed 64-bit count of
  nanoseconds and raises \<^verbatim>\<open>OverflowError\<close> when it does not fit, which is beyond
  9223372036 seconds either way; on a negative number that fits it raises
  \<^verbatim>\<open>ValueError\<close>. \<open>time_sleep secs\<close> is the exception raised, \<open>None\<close> when the sleep
  returns.
\<close>

definition sleep_limit :: int where
  "sleep_limit = 9223372036"

definition time_sleep :: "int \<Rightarrow> exn option" where
  "time_sleep secs =
     (if secs < - sleep_limit \<or> sleep_limit < secs then Some OverflowError
      else if secs < 0 then Some ValueError
      else None)"

subsection \<open>The retry loop (lines 21-58)\<close>

text \<open>
  \<open>retry_attempts\<close> is the body of \<^verbatim>\<open>for attempt in range(max_retries)\<close> run over the
  attempts still to make; \<open>call k\<close> is what the \<open>k\<close>-th call of the remote service does
  within this invocation. The result is \<open>Inl e\<close> when the function raises \<open>e\<close>,
  \<open>Inr (Some response)\<close> when it returns a response and \<open>Inr None\<close> when the loop
  runs out and line 58 returns \<^verbatim>\<open>None\<close>.

  An exception of the format of line 47 or of the sleep of line 48 is raised inside the
  handler of line 31 and leaves the function.
\<close>

fun retry_attempts ::
  "(nat \<Rightarrow> 'r outcome) \<Rightarrow> int \<Rightarrow> int \<Rightarrow> nat list \<Rightarrow> (exn + 'r option) \<times> event list" where
  "retry_attempts call max_retries initial_delay [] = (Inr None, [])"
| "retry_attempts call max_retries initial_delay (attempt # rest) =
     (case call attempt of
        Returns response \<Rightarrow> (Inr (Some response), [RemoteCall attempt])
      | Raises error_message \<Rightarrow>
          if is_retriable_error error_message \<and> int attempt < max_retries - 1 then
            (let delay = initial_delay * 2 ^ attempt in
             if format_overflows delay then (Inl OverflowError, [RemoteCall attempt])
             else
               (case time_sleep delay of
                  Some e \<Rightarrow>
                    (Inl e,
                     [RemoteCall attempt,
                      LogRetry (attempt + 1) max_retries error_message delay])
                | None \<Rightarrow>
                    (case retry_attempts call max_retries initial_delay rest of
                       (r, t) \<Rightarrow>
                         (r, [RemoteCall attempt,
                              LogRetry (attempt + 1) max_retries error_message delay,
                              Slept delay] @ t))))
          else
            (Inl (RemoteError error_message),
             [RemoteCall attempt,
              if is_retriable_error error_message then LogRetryFailed max_retries
              else LogFatal error_message]))"

text \<open>\<^verbatim>\<open>range(max_retries)\<close> is empty for a non-positive \<open>max_retries\<close>.\<close>

definition generate_content_with_retry ::
  "(nat \<Rightarrow> 'r outcome) \<Rightarrow> int \<Rightarrow> int \<Rightarrow> (exn + 'r option) \<times> event list" where
  "generate_content_with_retry call max_retries initial_delay =
     retry_attempts call max_retries initial_delay [0..<nat max_retries]"

subsection \<open>Reading a trace\<close>

fun remote_calls :: "event list \<Rightarrow> nat" where
  "remote_calls [] = 0"
| "remote_calls (RemoteCall k # t) = Suc (remote_calls t)"
| "remote_calls (e # t) = remote_calls t"


section \<open>One image: \<open>get_bounding_boxes\<close> (lines 77-147)\<close>

text \<open>
  A decoded JSON value. \<open>JNull\<close> is Python's \<^verbatim>\<open>None\<close>; numbers and booleans have no
  \<^verbatim>\<open>len\<close>; an object is the list of its members in document order, of which
  \<^verbatim>\<open>json.loads\<close> keeps one per key; a string is the list of its characters.
\<close>

datatype json =
    JNull
  | JBool bool
  | JNumber int
  | JString string
  | JArray "json list"
  | JObject "(string \<times> json) list"

fun py_len :: "json \<Rightarrow> exn + nat" where
  "py_len (JString s) = Inr (length s)"
| "py_len (JArray xs) = Inr (length xs)"
| "py_len (JObject kvs) = Inr (length (remdups (map fst kvs)))"
| "py_len v = Inl TypeError"

text \<open>
  What the source reads of a reply: \<^verbatim>\<open>usage_metadata\<close> (absent, or present with its
  \<^verbatim>\<open>total_token_count\<close>, itself optional) and \<^verbatim>\<open>text\<close>, here \<open>text_str\<close>
  (\<^verbatim>\<open>None\<close> when the reply has no text part).
\<close>

record response =
  usage_metadata :: "nat option option"
  text_str :: "string option"

text \<open>The dictionary built at lines 138-141.\<close>

record file_data =
  file_name :: string
  detections :: json

text \<open>
  The environment of one iteration of the batch loop: whether \<^verbatim>\<open>genai.Client()\<close>
  returns, whether the path exists, whether \<^verbatim>\<open>Image.open\<close> returns, and what the
  successive calls of the remote service do.
\<close>

record item_world =
  client_ok :: bool
  path_exists :: bool
  image_ok :: bool
  generate_content :: "nat \<Rightarrow> response outcome"

text \<open>
  The environment of a run. \<open>item i\<close> is the environment of iteration \<open>i\<close> of the
  loop of line 155; \<open>json_loads s\<close> is \<^verbatim>\<open>json.loads(s.strip())\<close>, \<open>None\<close> when it
  raises; \<open>file_stem p\<close> is \<^verbatim>\<open>os.path.splitext(os.path.basename(p))[0]\<close>; \<open>save_ok\<close>
  says whether lines 167-168 write the file.
\<close>

record world =
  item :: "nat \<Rightarrow> item_world"
  json_loads :: "string \<Rightarrow> json option"
  file_stem :: "string \<Rightarrow> string"
  save_ok :: bool

text \<open>The body of the \<^verbatim>\<open>try\<close> of line 78.\<close>

definition get_bounding_boxes_try ::
  "constants \<Rightarrow> world \<Rightarrow> item_world \<Rightarrow> string \<Rightarrow> (exn + file_data option) \<times> event list" where
  "get_bounding_boxes_try cs w iw image_file_path =
     (if \<not> client_ok iw then (Inl ClientError, [])
      else if \<not> path_exists iw then (Inr None, [LogNotFound image_file_path])
      else if \<not> image_ok iw then (Inl ImageError, [])
      else
        (case generate_content_with_retry (generate_content iw)
                (MAX_RETRIES cs) (INITIAL_DELAY cs) of
           (Inl e, t) \<Rightarrow> (Inl e, t)
         | (Inr None, t) \<Rightarrow> (Inl AttributeError, t)
         | (Inr (Some r), t) \<Rightarrow>
             (let t' = t @ (case usage_metadata r of
                              Some total_tokens \<Rightarrow> [LogTokens total_tokens]
                            | None \<Rightarrow> [])
              in case text_str r of
                   None \<Rightarrow> (Inl AttributeError, t')
                 | Some coordinates_json \<Rightarrow>
                     (case json_loads w coordinates_json of
                        None \<Rightarrow> (Inl JSONDecodeError, t')
                      | Some detections_list \<Rightarrow>
                          (Inr (Some \<lparr>file_name = file_stem w image_file_path,
                                      detections = detections_list\<rparr>), t')))))"

text \<open>The handler of lines 145-147 turns every exception of the body into \<^verbatim>\<open>None\<close>.\<close>

definition get_bounding_boxes ::
  "constants \<Rightarrow> world \<Rightarrow> item_world \<Rightarrow> string \<Rightarrow> file_data option \<times> event list" where
  "get_bounding_boxes cs w iw image_file_path =
     (case get_bounding_boxes_try cs w iw image_file_path of
        (Inl e, t) \<Rightarrow> (None, t @ [LogItemError image_file_path e])
      | (Inr r, t) \<Rightarrow> (r, t))"

section \<open>The batch: \<open>process_multiple_images\<close> (lines 150-177)\<close>

text \<open>
  The loop of lines 155-164 over \<^verbatim>\<open>enumerate(image_paths)\<close>, with \<open>all_results\<close> as
  accumulator and \<open>n\<close> the length of \<^verbatim>\<open>image_paths\<close>. The \<^verbatim>\<open>len\<close> of line 162 is
  outside every \<^verbatim>\<open>try\<close>: its \<^verbatim>\<open>TypeError\<close> leaves the function.

  The source has no cancellation check. What can stop a run from outside is an interrupt
  (Ctrl-C, \<^verbatim>\<open>SIGINT\<close>), which the interpreter raises in the running code as
  \<^verbatim>\<open>KeyboardInterrupt\<close>. \<open>sigint i\<close> says that one is raised as iteration \<open>i\<close> begins,
  after the previous item is done and before line 156 runs for this one. The loop is
  inside no \<^verbatim>\<open>try\<close>, so the exception leaves the function and lines 166-177 do not
  run. Interrupts that arrive inside an item are not modelled.
\<close>

fun process_items_sigint ::
  "(nat \<Rightarrow> bool) \<Rightarrow> constants \<Rightarrow> world \<Rightarrow> nat \<Rightarrow> (nat \<times> string) list \<Rightarrow>
     file_data list \<Rightarrow> (exn + file_data list) \<times> event list" where
  "process_items_sigint sigint cs w n [] all_results = (Inr all_results, [])"
| "process_items_sigint sigint cs w n ((i, image_path) # rest) all_results =
     (if sigint i then (Inl KeyboardInterrupt, [])
      else
        (case get_bounding_boxes cs w (item w i) image_path of
           (fd, t) \<Rightarrow>
             (let started = LogProcessing (i + 1) n image_path # t in
              if fd \<noteq> None \<and> detections (the fd) \<noteq> JNull then
                (case py_len (detections (the fd)) of
                   Inl e \<Rightarrow> (Inl e, started)
                 | Inr k \<Rightarrow>
                     (case process_items_sigint sigint cs w n rest (all_results @ [the fd]) of
                        (r, t') \<Rightarrow> (r, started @ [LogSuccess k] @ t')))
              else
                (case process_items_sigint sigint cs w n rest all_results of
                   (r, t') \<Rightarrow> (r, started @ [LogSkip] @ t')))))"

text \<open>The loop of a run that is not interrupted.\<close>

definition process_items ::
  "constants \<Rightarrow> world \<Rightarrow> nat \<Rightarrow> (nat \<times> string) list \<Rightarrow> file_data list \<Rightarrow>
     (exn + file_data list) \<times> event list" where
  "process_items cs w n ips all_results =
     process_items_sigint (\<lambda>i. False) cs w n ips all_results"

text \<open>Line 170; every element has passed the \<^verbatim>\<open>len\<close> of line 162 already.\<close>

fun total_detections :: "file_data list \<Rightarrow> exn + nat" where
  "total_detections [] = Inr 0"
| "total_detections (d # ds) =
     (case py_len (detections d) of
        Inl e \<Rightarrow> Inl e
      | Inr k \<Rightarrow> (case total_detections ds of Inl e \<Rightarrow> Inl e | Inr s \<Rightarrow> Inr (k + s)))"

text \<open>
  What a run that returns leaves behind: the list \<open>all_results\<close> at the end of the loop,
  and the content written to the output file, if it was written.
\<close>

record batch =
  all_results :: "file_data list"
  written :: "file_data list option"

definition process_multiple_images_sigint ::
  "(nat \<Rightarrow> bool) \<Rightarrow> constants \<Rightarrow> world \<Rightarrow> string list \<Rightarrow> string \<Rightarrow>
     (exn + batch) \<times> event list" where
  "process_multiple_images_sigint sigint cs w image_paths output_json_file =
     (case process_items_sigint sigint cs w (length image_paths) (enumerate 0 image_paths) [] of
        (Inl e, t) \<Rightarrow> (Inl e, LogStart (length image_paths) # t)
      | (Inr results, t) \<Rightarrow>
          if save_ok w then
            (Inr \<lparr>all_results = results, written = Some results\<rparr>,
             LogStart (length image_paths) # t @
               [case total_detections results of
                  Inr tot \<Rightarrow> LogComplete (length results) tot output_json_file
                | Inl e \<Rightarrow> LogSaveError])
          else
            (Inr \<lparr>all_results = results, written = None\<rparr>,
             LogStart (length image_paths) # t @ [LogSaveError]))"

text \<open>The run that is not interrupted.\<close>

definition process_multiple_images ::
  "constants \<Rightarrow> world \<Rightarrow> string list \<Rightarrow> string \<Rightarrow> (exn + batch) \<times> event list" where
  "process_multiple_images cs w image_paths output_json_file =
     process_multiple_images_sigint (\<lambda>i. False) cs w image_paths output_json_file"

subsection \<open>Reading a batch trace\<close>

text \<open>The paths for which an iteration of the loop started, in order.\<close>

fun attempted :: "event list \<Rightarrow> string list" where
  "attempted [] = []"
| "attempted (LogProcessing i n p # t) = p # attempted t"
| "attempted (e # t) = attempted t"

fun skipped :: "event list \<Rightarrow> nat" where
  "skipped [] = 0"
| "skipped (LogSkip # t) = Suc (skipped t)"
| "skipped (e # t) = skipped t"

text \<open>
  The outcome of one item as line 160 judges it: \<open>kept\<close> when the item's data is
  appended, and \<open>unsized\<close> when the appended value has no \<^verbatim>\<open>len\<close>.
\<close>

definition item_data :: "constants \<Rightarrow> world \<Rightarrow> nat \<times> string \<Rightarrow> file_data option" where
  "item_data cs w ip = fst (get_bounding_boxes cs w (item w (fst ip)) (snd ip))"

definition kept :: "constants \<Rightarrow> world \<Rightarrow> nat \<times> string \<Rightarrow> bool" where
  "kept cs w ip = (item_data cs w ip \<noteq> None \<and> detections (the (item_data cs w ip)) \<noteq> JNull)"

definition unsized :: "constants \<Rightarrow> world \<Rightarrow> nat \<times> string \<Rightarrow> bool" where
  "unsized cs w ip = (kept cs w ip \<and> py_len (detections (the (item_data cs w ip))) = Inl TypeError)"

section \<open>Concrete environments\<close>

text \<open>
  \<^verbatim>\<open>os.path.splitext(os.path.basename(p))[0]\<close> on a POSIX path: the last component,
  without its last suffix; a component made of dots up to its last dot has no suffix.
\<close>

definition posix_stem :: "string \<Rightarrow> string" where
  "posix_stem p =
     (let base = rev (takeWhile (\<lambda>c. c \<noteq> CHR ''/'') (rev p));
          ext = takeWhile (\<lambda>c. c \<noteq> CHR ''.'') (rev base);
          root = take (length base - length ext - 1) base
      in if length ext < length base \<and> (\<exists>c \<in> set root. c \<noteq> CHR ''.'') then root else base)"

text \<open>A reply whose text is the empty JSON list, and a decoder that knows that text.\<close>

definition empty_list_reply :: response where
  "empty_list_reply = \<lparr>usage_metadata = Some (Some 1200), text_str = Some ''[]''\<rparr>"

definition loads_empty_list :: "string \<Rightarrow> json option" where
  "loads_empty_list s = (if s = ''[]'' then Some (JArray []) else None)"

text \<open>An image for which every remote call succeeds, and one for which it fails for good.\<close>

definition good_item :: item_world where
  "good_item = \<lparr>client_ok = True, path_exists = True, image_ok = True,
                 generate_content = (\<lambda>k. Returns empty_list_reply)\<rparr>"

definition fatal_item :: item_world where
  "fatal_item = \<lparr>client_ok = True, path_exists = True, image_ok = True,
                  generate_content = (\<lambda>k. Raises ''400 INVALID_ARGUMENT'')\<rparr>"

text \<open>A run in which only the second image fails.\<close>

definition second_fails :: world where
  "second_fails = \<lparr>item = (\<lambda>i. if i = 1 then fatal_item else good_item),
                    json_loads = loads_empty_list, file_stem = posix_stem,
                    save_ok = True\<rparr>"

text \<open>A run in which only the first image fails.\<close>

definition first_fails :: world where
  "first_fails = \<lparr>item = (\<lambda>i. if i = 0 then fatal_item else good_item),
                   json_loads = loads_empty_list, file_stem = posix_stem,
                   save_ok = True\<rparr>"

text \<open>A run in which every image succeeds.\<close>

definition all_succeed :: world where
  "all_succeed = \<lparr>item = (\<lambda>i. good_item),
                   json_loads = loads_empty_list, file_stem = posix_stem,
                   save_ok = True\<rparr>"

text \<open>
  A reply whose text is the JSON number 5, a decoder that knows both texts, and a run in
  which the first image fails for good, the second gets that reply and the others
  succeed.
\<close>

definition number_reply :: response where
  "number_reply = \<lparr>usage_metadata = Some (Some 1200), text_str = Some ''5''\<rparr>"

definition loads_list_or_number :: "string \<Rightarrow> json option" where
  "loads_list_or_number s =
     (if s = ''[]'' then Some (JArray []) else if s = ''5'' then Some (JNumber 5) else None)"

definition number_item :: item_world where
  "number_item = \<lparr>client_ok = True, path_exists = True, image_ok = True,
                   generate_content = (\<lambda>k. Returns number_reply)\<rparr>"

definition fatal_then_number :: world where
  "fatal_then_number =
     \<lparr>item = (\<lambda>i. if i = 0 then fatal_item else if i = 1 then number_item else good_item),
      json_loads = loads_list_or_number, file_stem = posix_stem, save_ok = True\<rparr>"

section \<open>Facts about traces and the marker search\<close>

lemma remote_calls_append: "remote_calls (xs @ ys) = remote_calls xs + remote_calls ys"
  by (induction xs rule: remote_calls.induct) simp_all


lemma attempted_append: "attempted (xs @ ys) = attempted xs @ attempted ys"
  by (induction xs rule: attempted.induct) simp_all

lemma skipped_append: "skipped (xs @ ys) = skipped xs + skipped ys"
  by (induction xs rule: skipped.induct) simp_all



section \<open>Facts about the retry loop\<close>



lemma time_sleep_raises_nonneg:
  assumes "0 \<le> secs"
  shows "time_sleep secs = None \<or> time_sleep secs = Some OverflowError"
  using assms by (simp add: time_sleep_def)





section \<open>Facts about the batch loop\<close>

text \<open>The loop and the run without interrupts, unfolded.\<close>

lemma process_items_Nil:
  "process_items cs w n [] acc = (Inr acc, [])"
  by (simp add: process_items_def)

lemma process_items_Cons:
  "process_items cs w n ((i, image_path) # rest) acc =
     (case get_bounding_boxes cs w (item w i) image_path of
        (fd, t) \<Rightarrow>
          (let started = LogProcessing (i + 1) n image_path # t in
           if fd \<noteq> None \<and> detections (the fd) \<noteq> JNull then
             (case py_len (detections (the fd)) of
                Inl e \<Rightarrow> (Inl e, started)
              | Inr k \<Rightarrow>
                  (case process_items cs w n rest (acc @ [the fd]) of
                     (r, t') \<Rightarrow> (r, started @ [LogSuccess k] @ t')))
           else
             (case process_items cs w n rest acc of
                (r, t') \<Rightarrow> (r, started @ [LogSkip] @ t'))))"
  unfolding process_items_def by simp

lemma process_multiple_images_unfold:
  "process_multiple_images cs w image_paths output_json_file =
     (case process_items cs w (length image_paths) (enumerate 0 image_paths) [] of
        (Inl e, t) \<Rightarrow> (Inl e, LogStart (length image_paths) # t)
      | (Inr results, t) \<Rightarrow>
          if save_ok w then
            (Inr \<lparr>all_results = results, written = Some results\<rparr>,
             LogStart (length image_paths) # t @
               [case total_detections results of
                  Inr tot \<Rightarrow> LogComplete (length results) tot output_json_file
                | Inl e \<Rightarrow> LogSaveError])
          else
            (Inr \<lparr>all_results = results, written = None\<rparr>,
             LogStart (length image_paths) # t @ [LogSaveError]))"
  unfolding process_multiple_images_def process_multiple_images_sigint_def process_items_def
  by (rule refl)

lemma py_len_error: "py_len v = Inl e \<Longrightarrow> e = TypeError"
  by (cases v) simp_all

lemma retry_attempts_no_batch_events:
  "attempted (snd (retry_attempts call max_retries initial_delay as)) = [] \<and>
   skipped (snd (retry_attempts call max_retries initial_delay as)) = 0"
  by (induction as) (auto simp add: Let_def split: outcome.splits prod.splits option.splits)

lemma get_bounding_boxes_try_no_batch_events:
  "attempted (snd (get_bounding_boxes_try cs w iw p)) = [] \<and>
   skipped (snd (get_bounding_boxes_try cs w iw p)) = 0"
proof -
  let ?g = "generate_content_with_retry (generate_content iw) (MAX_RETRIES cs) (INITIAL_DELAY cs)"
  have g: "attempted (snd ?g) = []" "skipped (snd ?g) = 0"
    unfolding generate_content_with_retry_def
    using retry_attempts_no_batch_events by blast+
  obtain r t where rt: "?g = (r, t)" by (cases ?g)
  with g have t: "attempted t = []" "skipped t = 0" by simp_all
  show ?thesis
    unfolding get_bounding_boxes_try_def rt
    using t
    by (auto simp add: Let_def attempted_append skipped_append
             split: sum.splits option.splits)
qed

lemma get_bounding_boxes_no_batch_events:
  "attempted (snd (get_bounding_boxes cs w iw p)) = [] \<and>
   skipped (snd (get_bounding_boxes cs w iw p)) = 0"
proof -
  obtain r t where rt: "get_bounding_boxes_try cs w iw p = (r, t)"
    by (cases "get_bounding_boxes_try cs w iw p")
  with get_bounding_boxes_try_no_batch_events[of cs w iw p]
  have t: "attempted t = []" "skipped t = 0" by simp_all
  show ?thesis
    unfolding get_bounding_boxes_def rt using t
    by (cases r) (simp_all add: attempted_append skipped_append)
qed

text \<open>The loop, when no appended value lacks a \<^verbatim>\<open>len\<close>: it runs to the end of the list.\<close>

lemma process_items_complete:
  assumes "\<forall>ip \<in> set ips. \<not> unsized cs w ip"
  shows "fst (process_items cs w n ips acc) =
           Inr (acc @ map (\<lambda>ip. the (item_data cs w ip)) (filter (kept cs w) ips)) \<and>
         attempted (snd (process_items cs w n ips acc)) = map snd ips \<and>
         skipped (snd (process_items cs w n ips acc)) =
           length (filter (\<lambda>ip. \<not> kept cs w ip) ips)"
  using assms
proof (induction ips arbitrary: acc)
  case Nil
  then show ?case by (simp add: process_items_Nil)
next
  case (Cons ip ips)
  obtain i p where ip: "ip = (i, p)" by (cases ip)
  obtain fd t where g: "get_bounding_boxes cs w (item w i) p = (fd, t)"
    by (cases "get_bounding_boxes cs w (item w i) p")
  have t: "attempted t = []" "skipped t = 0"
    using get_bounding_boxes_no_batch_events[of cs w "item w i" p] g by simp_all
  have data: "item_data cs w ip = fd" by (simp add: item_data_def ip g)
  have rest: "\<forall>ip \<in> set ips. \<not> unsized cs w ip" using Cons.prems by simp
  note IH = Cons.IH[OF rest]
  show ?case
  proof (cases "kept cs w ip")
    case True
    then have k: "fd \<noteq> None" "detections (the fd) \<noteq> JNull"
      by (simp_all add: kept_def data)
    have "\<not> unsized cs w ip" using Cons.prems by simp
    then have "py_len (detections (the fd)) \<noteq> Inl TypeError"
      using True by (simp add: unsized_def data)
    then obtain k' where len: "py_len (detections (the fd)) = Inr k'"
      using py_len_error by (cases "py_len (detections (the fd))") auto
    obtain r t' where r: "process_items cs w n ips (acc @ [the fd]) = (r, t')"
      by (cases "process_items cs w n ips (acc @ [the fd])")
    have step: "process_items cs w n (ip # ips) acc =
        (r, (LogProcessing (i + 1) n p # t) @ [LogSuccess k'] @ t')"
      using k len r by (simp add: ip g Let_def process_items_Cons)
    show ?thesis
      unfolding step using IH[of "acc @ [the fd]"] r True t data
      by (simp add: attempted_append skipped_append ip)
  next
    case False
    then have k: "\<not> (fd \<noteq> None \<and> detections (the fd) \<noteq> JNull)"
      by (simp add: kept_def data)
    obtain r t' where r: "process_items cs w n ips acc = (r, t')"
      by (cases "process_items cs w n ips acc")
    have step: "process_items cs w n (ip # ips) acc =
        (r, (LogProcessing (i + 1) n p # t) @ [LogSkip] @ t')"
      using k r by (auto simp add: ip g Let_def process_items_Cons)
    show ?thesis
      unfolding step using IH[of acc] r False t
      by (simp add: attempted_append skipped_append ip)
  qed
qed

lemma process_multiple_images_complete:
  assumes "\<forall>ip \<in> set (enumerate 0 image_paths). \<not> unsized cs w ip"
  shows "fst (process_multiple_images cs w image_paths output_json_file) =
           Inr \<lparr>all_results = map (\<lambda>ip. the (item_data cs w ip))
                                 (filter (kept cs w) (enumerate 0 image_paths)),
                written = (if save_ok w
                           then Some (map (\<lambda>ip. the (item_data cs w ip))
                                        (filter (kept cs w) (enumerate 0 image_paths)))
                           else None)\<rparr> \<and>
         attempted (snd (process_multiple_images cs w image_paths output_json_file)) = image_paths \<and>
         skipped (snd (process_multiple_images cs w image_paths output_json_file)) =
           length (filter (\<lambda>ip. \<not> kept cs w ip) (enumerate 0 image_paths))"
proof -
  let ?loop = "process_items cs w (length image_paths) (enumerate 0 image_paths) []"
  let ?res = "map (\<lambda>ip. the (item_data cs w ip)) (filter (kept cs w) (enumerate 0 image_paths))"
  obtain r t where rt: "?loop = (r, t)" by (cases ?loop)
  from process_items_complete[OF assms, of "length image_paths" "[]"] rt
  have r: "r = Inr ?res" and a: "attempted t = image_paths"
    and s: "skipped t = length (filter (\<lambda>ip. \<not> kept cs w ip) (enumerate 0 image_paths))"
    by simp_all
  show ?thesis
    unfolding process_multiple_images_unfold rt r
    using a s
    by (cases "total_detections ?res")
       (simp_all add: attempted_append skipped_append)
qed

text \<open>What \<open>get_bounding_boxes\<close> returns carries the stem of the path it was given.\<close>

lemma item_data_file_name:
  assumes "item_data cs w (i, p) = Some fd"
  shows "file_name fd = file_stem w p"
proof -
  obtain r t where g: "generate_content_with_retry (generate_content (item w i))
      (MAX_RETRIES cs) (INITIAL_DELAY cs) = (r, t)"
    by (cases "generate_content_with_retry (generate_content (item w i))
      (MAX_RETRIES cs) (INITIAL_DELAY cs)")
  show ?thesis
    using assms
    unfolding item_data_def get_bounding_boxes_def get_bounding_boxes_try_def
    by (auto simp add: g Let_def split: if_splits sum.splits option.splits)
qed

text \<open>An exception of the invoker never leaves \<open>get_bounding_boxes\<close>: the item yields nothing.\<close>

lemma invoker_error_caught:
  assumes "fst (generate_content_with_retry (generate_content (item w i))
                  (MAX_RETRIES cs) (INITIAL_DELAY cs)) = Inl e"
  shows "item_data cs w (i, p) = None"
proof -
  obtain t where g: "generate_content_with_retry (generate_content (item w i))
      (MAX_RETRIES cs) (INITIAL_DELAY cs) = (Inl e, t)"
    using assms by (cases "generate_content_with_retry (generate_content (item w i))
      (MAX_RETRIES cs) (INITIAL_DELAY cs)") simp
  show ?thesis
    unfolding item_data_def get_bounding_boxes_def get_bounding_boxes_try_def
    by (simp add: g)
qed

section \<open>Claims about the retrying invoker\<close>














lemma get_bounding_boxes_nonpositive:
  assumes "MAX_RETRIES cs \<le> 0"
  shows "fst (get_bounding_boxes cs w iw p) = None \<and>
         remote_calls (snd (get_bounding_boxes cs w iw p)) = 0"
  using assms
  by (simp add: get_bounding_boxes_def get_bounding_boxes_try_def
        generate_content_with_retry_def)

lemma process_items_nonpositive:
  assumes "MAX_RETRIES cs \<le> 0"
  shows "remote_calls (snd (process_items cs w n ips acc)) = 0"
proof (induction ips arbitrary: acc)
  case Nil
  then show ?case by (simp add: process_items_Nil)
next
  case (Cons ip ips)
  obtain i p where ip: "ip = (i, p)" by (cases ip)
  obtain fd t where g: "get_bounding_boxes cs w (item w i) p = (fd, t)"
    by (cases "get_bounding_boxes cs w (item w i) p")
  have fd: "fd = None" and t: "remote_calls t = 0"
    using get_bounding_boxes_nonpositive[OF assms, of w "item w i" p] g by simp_all
  obtain r t' where r: "process_items cs w n ips acc = (r, t')"
    by (cases "process_items cs w n ips acc")
  have "remote_calls t' = 0" using Cons.IH[of acc] r by simp
  then show ?case using t by (simp add: ip g fd r remote_calls_append process_items_Cons)
qed

text \<open>
  An interrupt at the start of an iteration ends the loop there: the items before it are
  handled as in a run without interrupts, and nothing happens after it.
\<close>

lemma process_items_sigint_prefix:
  assumes "\<forall>ip \<in> set pre. \<not> sigint (fst ip) \<and> \<not> unsized cs w ip"
  shows "process_items_sigint sigint cs w n (pre @ rest) acc =
           (fst (process_items_sigint sigint cs w n rest
                   (acc @ map (\<lambda>ip. the (item_data cs w ip)) (filter (kept cs w) pre))),
            snd (process_items cs w n pre acc) @
            snd (process_items_sigint sigint cs w n rest
                   (acc @ map (\<lambda>ip. the (item_data cs w ip)) (filter (kept cs w) pre))))"
  using assms
proof (induction pre arbitrary: acc)
  case Nil
  then show ?case by (simp add: process_items_Nil)
next
  case (Cons ip ips)
  obtain i p where ip: "ip = (i, p)" by (cases ip)
  obtain fd t where g: "get_bounding_boxes cs w (item w i) p = (fd, t)"
    by (cases "get_bounding_boxes cs w (item w i) p")
  have data: "item_data cs w ip = fd" by (simp add: item_data_def ip g)
  have go: "\<not> sigint i" using Cons.prems by (simp add: ip)
  have rest: "\<forall>ip \<in> set ips. \<not> sigint (fst ip) \<and> \<not> unsized cs w ip" using Cons.prems by simp
  note IH = Cons.IH[OF rest]
  show ?case
  proof (cases "kept cs w ip")
    case True
    then have k: "fd \<noteq> None" "detections (the fd) \<noteq> JNull"
      by (simp_all add: kept_def data)
    have "\<not> unsized cs w ip" using Cons.prems by simp
    then have "py_len (detections (the fd)) \<noteq> Inl TypeError"
      using True by (simp add: unsized_def data)
    then obtain k' where len: "py_len (detections (the fd)) = Inr k'"
      using py_len_error by (cases "py_len (detections (the fd))") auto
    let ?acc = "(acc @ [the fd]) @ map (\<lambda>ip. the (item_data cs w ip)) (filter (kept cs w) ips)"
    obtain r1 t1 where x: "process_items_sigint sigint cs w n rest ?acc = (r1, t1)"
      by (cases "process_items_sigint sigint cs w n rest ?acc")
    obtain r2 t2 where y: "process_items cs w n ips (acc @ [the fd]) = (r2, t2)"
      by (cases "process_items cs w n ips (acc @ [the fd])")
    have z: "process_items_sigint sigint cs w n (ips @ rest) (acc @ [the fd]) = (r1, t2 @ t1)"
      using IH[of "acc @ [the fd]"] x y by simp
    have lhs: "process_items_sigint sigint cs w n ((ip # ips) @ rest) acc =
        (r1, (LogProcessing (i + 1) n p # t) @ [LogSuccess k'] @ t2 @ t1)"
      using go k len z by (simp add: ip g Let_def)
    have rhs: "snd (process_items cs w n (ip # ips) acc) =
        (LogProcessing (i + 1) n p # t) @ [LogSuccess k'] @ t2"
      using k len y by (simp add: ip g Let_def process_items_Cons)
    have accs: "acc @ map (\<lambda>ip. the (item_data cs w ip)) (filter (kept cs w) (ip # ips)) = ?acc"
      using True data by simp
    show ?thesis unfolding accs lhs rhs x by simp
  next
    case False
    then have k: "\<not> (fd \<noteq> None \<and> detections (the fd) \<noteq> JNull)"
      by (simp add: kept_def data)
    let ?acc = "acc @ map (\<lambda>ip. the (item_data cs w ip)) (filter (kept cs w) ips)"
    obtain r1 t1 where x: "process_items_sigint sigint cs w n rest ?acc = (r1, t1)"
      by (cases "process_items_sigint sigint cs w n rest ?acc")
    obtain r2 t2 where y: "process_items cs w n ips acc = (r2, t2)"
      by (cases "process_items cs w n ips acc")
    have z: "process_items_sigint sigint cs w n (ips @ rest) acc = (r1, t2 @ t1)"
      using IH[of acc] x y by simp
    have lhs: "process_items_sigint sigint cs w n ((ip # ips) @ rest) acc =
        (r1, (LogProcessing (i + 1) n p # t) @ [LogSkip] @ t2 @ t1)"
      using go k z by (auto simp add: ip g Let_def)
    have rhs: "snd (process_items cs w n (ip # ips) acc) =
        (LogProcessing (i + 1) n p # t) @ [LogSkip] @ t2"
      using k y by (auto simp add: ip g Let_def process_items_Cons)
    have accs: "acc @ map (\<lambda>ip. the (item_data cs w ip)) (filter (kept cs w) (ip # ips)) = ?acc"
      using False by simp
    show ?thesis unfolding accs lhs rhs x by simp
  qed
qed

lemma take_enumerate_index:
  assumes "ip \<in> set (take k (enumerate 0 xs))"
  shows "fst ip < k"
proof -
  from assms obtain m where m: "m < length (take k (enumerate 0 xs))"
    and ip: "ip = take k (enumerate 0 xs) ! m"
    by (auto simp add: in_set_conv_nth)
  from m have mk: "m < k" and mx: "m < length xs" by simp_all
  from ip mk mx have "ip = (m, xs ! m)" by (simp add: nth_enumerate_eq)
  with mk show ?thesis by simp
qed

section \<open>Claims about the batch\<close>

text \<open>
  C1 (amended). The report holds one entry for each item whose processing yields data,
  and none for the others: a failed item is logged as skipped (line 164) and not
  appended. So the report is as long as the number of kept items, at most as long as the
  input, and report entries plus skipped items make up the input. This is stated for
  the inputs in which no kept reply is a JSON number or boolean, that is, in which the
  \<^verbatim>\<open>len\<close> of line 162 returns for every kept item; nothing is stated about the others.
\<close>

theorem report_holds_kept_items:
  assumes "\<forall>ip \<in> set (enumerate 0 image_paths). \<not> unsized cs w ip"
  shows "\<exists>b. fst (process_multiple_images cs w image_paths output_json_file) = Inr b \<and>
           length (all_results b) = length (filter (kept cs w) (enumerate 0 image_paths)) \<and>
           length (all_results b) +
             skipped (snd (process_multiple_images cs w image_paths output_json_file)) =
             length image_paths \<and>
           length (all_results b) \<le> length image_paths"
proof -
  let ?ips = "enumerate 0 image_paths"
  note c = process_multiple_images_complete[OF assms, of output_json_file]
  have split: "length (filter (kept cs w) ?ips) + length (filter (\<lambda>ip. \<not> kept cs w ip) ?ips)
      = length image_paths"
    using sum_length_filter_compl[of "kept cs w" ?ips] by simp
  then have le: "length (filter (kept cs w) ?ips) \<le> length image_paths" by linarith
  show ?thesis using c split le by simp
qed

theorem report_holds_kept_items_witness:
  "\<exists>b. fst (process_multiple_images module_constants second_fails
              [''test/A.jpg'', ''test/B.jpg'', ''test/C.jpg''] ''underwater_detections.json'') = Inr b \<and>
        length (all_results b) +
          skipped (snd (process_multiple_images module_constants second_fails
              [''test/A.jpg'', ''test/B.jpg'', ''test/C.jpg''] ''underwater_detections.json'')) = 3"
proof -
  have h: "\<forall>ip \<in> set (enumerate 0 [''test/A.jpg'', ''test/B.jpg'', ''test/C.jpg'']).
             \<not> unsized module_constants second_fails ip"
    by code_simp
  show ?thesis
    using report_holds_kept_items[OF h, of "''underwater_detections.json''"] by auto
qed

text \<open>
  C1, the claim as stated, fails: a single item whose remote call fails for good leaves
  an empty report, of length 0 for an input of length 1; the item is only logged as
  skipped.
\<close>

theorem failed_item_is_dropped_counterexample:
  "fst (process_multiple_images module_constants first_fails
          [''test/A.jpg''] ''underwater_detections.json'') =
     Inr \<lparr>all_results = [], written = Some []\<rparr> \<and>
   skipped (snd (process_multiple_images module_constants first_fails
          [''test/A.jpg''] ''underwater_detections.json'')) = 1 \<and>
   length ([] :: file_data list) \<noteq> length [''test/A.jpg'']"
  by code_simp

text \<open>
  C2 fails on the code. Exceptions of the invoker are caught inside
  \<open>get_bounding_boxes\<close> and the item is skipped, but the \<^verbatim>\<open>len\<close> of line 162 is
  outside every \<^verbatim>\<open>try\<close>. In a run over three images in which the first fails for good,
  the reply for the second is the JSON number 5 and the third would succeed, the first
  image is skipped, the second raises \<^verbatim>\<open>TypeError\<close> out of
  \<open>process_multiple_images\<close>, the third is never started and nothing is written.
\<close>

theorem unsized_reply_aborts_batch:
  "process_multiple_images module_constants fatal_then_number
       [''test/A.jpg'', ''test/B.jpg'', ''test/C.jpg''] ''underwater_detections.json'' =
     (Inl TypeError,
      [LogStart 3, LogProcessing 1 3 ''test/A.jpg'', RemoteCall 0,
       LogFatal ''400 INVALID_ARGUMENT'',
       LogItemError ''test/A.jpg'' (RemoteError ''400 INVALID_ARGUMENT''),
       LogSkip, LogProcessing 2 3 ''test/B.jpg'', RemoteCall 0,
       LogTokens (Some 1200)])"
  by code_simp

text \<open>
  C8 (amended). The report lists the kept items in input order: it is the input,
  enumerated, with the failed items left out, each kept item giving its data, whose
  name is the stem of the item's path. For an input \<open>[A, B, C]\<close> in which only \<open>B\<close>
  fails the report is the data of \<open>A\<close> followed by the data of \<open>C\<close>. This is stated
  for the inputs in which no kept reply is a JSON number or boolean, that is, in which
  the \<^verbatim>\<open>len\<close> of line 162 returns for every kept item; nothing is stated about the
  others.
\<close>

theorem results_follow_input_order:
  assumes "\<forall>ip \<in> set (enumerate 0 image_paths). \<not> unsized cs w ip"
  shows "\<exists>b. fst (process_multiple_images cs w image_paths output_json_file) = Inr b \<and>
           all_results b = map (\<lambda>ip. the (item_data cs w ip))
                             (filter (kept cs w) (enumerate 0 image_paths)) \<and>
           map file_name (all_results b) =
             map (\<lambda>ip. file_stem w (snd ip)) (filter (kept cs w) (enumerate 0 image_paths))"
proof -
  let ?kept = "filter (kept cs w) (enumerate 0 image_paths)"
  note c = process_multiple_images_complete[OF assms, of output_json_file]
  have name: "file_name (the (item_data cs w ip)) = file_stem w (snd ip)" if "ip \<in> set ?kept" for ip
  proof -
    from that have "kept cs w ip" by simp
    then obtain fd where fd: "item_data cs w ip = Some fd" by (auto simp add: kept_def)
    then have "item_data cs w (fst ip, snd ip) = Some fd" by simp
    from item_data_file_name[OF this] fd show ?thesis by simp
  qed
  have "map file_name (map (\<lambda>ip. the (item_data cs w ip)) ?kept) =
        map (\<lambda>ip. file_stem w (snd ip)) ?kept"
    using name by (simp del: set_filter)
  then show ?thesis using c by simp
qed

theorem results_follow_input_order_witness:
  "\<exists>b. fst (process_multiple_images module_constants second_fails
              [''test/A.jpg'', ''test/B.jpg'', ''test/C.jpg''] ''underwater_detections.json'') = Inr b \<and>
        map file_name (all_results b) = [''A'', ''C'']"
proof -
  have h: "\<forall>ip \<in> set (enumerate 0 [''test/A.jpg'', ''test/B.jpg'', ''test/C.jpg'']).
             \<not> unsized module_constants second_fails ip"
    by code_simp
  have k: "map (\<lambda>ip. file_stem second_fails (snd ip))
             (filter (kept module_constants second_fails)
                (enumerate 0 [''test/A.jpg'', ''test/B.jpg'', ''test/C.jpg''])) = [''A'', ''C'']"
    by code_simp
  from results_follow_input_order[OF h, of "''underwater_detections.json''"]
  obtain b where b: "fst (process_multiple_images module_constants second_fails
              [''test/A.jpg'', ''test/B.jpg'', ''test/C.jpg''] ''underwater_detections.json'') = Inr b"
    and n: "map file_name (all_results b) =
             map (\<lambda>ip. file_stem second_fails (snd ip))
               (filter (kept module_constants second_fails)
                  (enumerate 0 [''test/A.jpg'', ''test/B.jpg'', ''test/C.jpg'']))"
    by (elim exE conjE)
  from n have "map file_name (all_results b) = [''A'', ''C'']" by (simp only: k)
  with b show ?thesis by (intro exI[of _ b] conjI)
qed

text \<open>
  C8, the claim as stated, fails on its own example: for \<open>[A, B, C]\<close> with \<open>B\<close>
  failing, the report has two entries, for \<open>A\<close> and \<open>C\<close>, and none for \<open>B\<close>.
\<close>

theorem failed_item_has_no_entry_counterexample:
  "fst (process_multiple_images module_constants second_fails
          [''test/A.jpg'', ''test/B.jpg'', ''test/C.jpg''] ''underwater_detections.json'') =
     Inr \<lparr>all_results = [\<lparr>file_name = ''A'', detections = JArray []\<rparr>,
                          \<lparr>file_name = ''C'', detections = JArray []\<rparr>],
          written = Some [\<lparr>file_name = ''A'', detections = JArray []\<rparr>,
                          \<lparr>file_name = ''C'', detections = JArray []\<rparr>]\<rparr>"
  by code_simp

text \<open>
  C7 (amended). The source has no cancellation check; the signal that can stop a run
  from outside is an interrupt, raised as \<^verbatim>\<open>KeyboardInterrupt\<close>, which no handler of the
  source catches. When it is raised as iteration \<open>k\<close> begins, no item from \<open>k\<close> on is
  started: the events of the run are the start line followed by exactly the events of
  handling the first \<open>k\<close> items. The run does not return: the interrupt leaves
  \<open>process_multiple_images\<close>, no report is returned or written, and the results
  gathered so far are lost. This is stated for the inputs in which no kept reply before
  the interrupt is a JSON number or boolean.
\<close>

theorem interrupt_ends_run_without_report:
  assumes "k < length image_paths"
    and "sigint k"
    and "\<forall>i<k. \<not> sigint i"
    and "\<forall>ip \<in> set (take k (enumerate 0 image_paths)). \<not> unsized cs w ip"
  shows "process_multiple_images_sigint sigint cs w image_paths output_json_file =
           (Inl KeyboardInterrupt,
            LogStart (length image_paths) #
              snd (process_items cs w (length image_paths)
                     (take k (enumerate 0 image_paths)) [])) \<and>
         attempted (snd (process_multiple_images_sigint sigint cs w image_paths output_json_file)) =
           take k image_paths"
proof -
  let ?n = "length image_paths"
  let ?ips = "enumerate 0 image_paths"
  let ?pre = "take k ?ips"
  let ?acc = "[] @ map (\<lambda>ip. the (item_data cs w ip)) (filter (kept cs w) ?pre)"
  have kl: "k < length ?ips" using assms(1) by simp
  have at: "?ips ! k = (k, image_paths ! k)" using assms(1) by (simp add: nth_enumerate_eq)
  have split: "?ips = ?pre @ (k, image_paths ! k) # drop (Suc k) ?ips"
    using id_take_nth_drop[OF kl] at by simp
  have pre: "\<forall>ip \<in> set ?pre. \<not> sigint (fst ip) \<and> \<not> unsized cs w ip"
    using assms(3,4) take_enumerate_index by blast
  have stop: "process_items_sigint sigint cs w ?n ((k, image_paths ! k) # drop (Suc k) ?ips) ?acc =
      (Inl KeyboardInterrupt, [])"
    using assms(2) by simp
  have "process_items_sigint sigint cs w ?n
          (?pre @ (k, image_paths ! k) # drop (Suc k) ?ips) [] =
        (Inl KeyboardInterrupt, snd (process_items cs w ?n ?pre []))"
    unfolding process_items_sigint_prefix[OF pre, of ?n "(k, image_paths ! k) # drop (Suc k) ?ips" "[]"]
      stop
    by simp
  then have loop: "process_items_sigint sigint cs w ?n ?ips [] =
      (Inl KeyboardInterrupt, snd (process_items cs w ?n ?pre []))"
    using split by simp
  have run: "process_multiple_images_sigint sigint cs w image_paths output_json_file =
      (Inl KeyboardInterrupt, LogStart ?n # snd (process_items cs w ?n ?pre []))"
    unfolding process_multiple_images_sigint_def loop by simp
  have "attempted (snd (process_items cs w ?n ?pre [])) = map snd ?pre"
    using process_items_complete[of ?pre cs w ?n "[]"] assms(4) by simp
  also have "\<dots> = take k image_paths" by (simp add: take_map [symmetric])
  finally have "attempted (LogStart ?n # snd (process_items cs w ?n ?pre [])) = take k image_paths"
    by simp
  then show ?thesis unfolding run by simp
qed

theorem interrupt_ends_run_without_report_witness:
  "fst (process_multiple_images_sigint (\<lambda>i. i = 1) module_constants all_succeed
       [''test/A.jpg'', ''test/B.jpg'', ''test/C.jpg'', ''test/D.jpg'']
       ''underwater_detections.json'') = Inl KeyboardInterrupt \<and>
   attempted (snd (process_multiple_images_sigint (\<lambda>i. i = 1) module_constants all_succeed
       [''test/A.jpg'', ''test/B.jpg'', ''test/C.jpg'', ''test/D.jpg'']
       ''underwater_detections.json'')) = [''test/A.jpg'']"
proof -
  have h: "\<forall>ip \<in> set (take 1 (enumerate 0
              [''test/A.jpg'', ''test/B.jpg'', ''test/C.jpg'', ''test/D.jpg''])).
             \<not> unsized module_constants all_succeed ip"
    by code_simp
  have k: "(1::nat) < length [''test/A.jpg'', ''test/B.jpg'', ''test/C.jpg'', ''test/D.jpg'']"
    by simp
  have s: "(\<lambda>i. i = (1::nat)) 1" by simp
  have b: "\<forall>i<1. \<not> (\<lambda>i. i = (1::nat)) i" by simp
  note t = interrupt_ends_run_without_report[OF k s b h, of "''underwater_detections.json''"]
  from t have a: "attempted (snd (process_multiple_images_sigint (\<lambda>i. i = 1) module_constants
       all_succeed [''test/A.jpg'', ''test/B.jpg'', ''test/C.jpg'', ''test/D.jpg'']
       ''underwater_detections.json'')) = take 1 [''test/A.jpg'', ''test/B.jpg'', ''test/C.jpg'', ''test/D.jpg'']"
    by (elim conjE)
  from t have f: "fst (process_multiple_images_sigint (\<lambda>i. i = 1) module_constants all_succeed
       [''test/A.jpg'', ''test/B.jpg'', ''test/C.jpg'', ''test/D.jpg'']
       ''underwater_detections.json'') = Inl KeyboardInterrupt"
    by (elim conjE) (simp only: fst_conv)
  from a have "attempted (snd (process_multiple_images_sigint (\<lambda>i. i = 1) module_constants
       all_succeed [''test/A.jpg'', ''test/B.jpg'', ''test/C.jpg'', ''test/D.jpg'']
       ''underwater_detections.json'')) = [''test/A.jpg'']"
    by simp
  with f show ?thesis by (intro conjI)
qed

text \<open>
  C7, the claim as stated, fails: for \<open>[A, B, C, D]\<close>, all succeeding, and an
  interrupt raised after \<open>A\<close> is done and before \<open>B\<close> starts, only \<open>A\<close> is handled, as
  claimed, but no report comes back: the run ends with the interrupt, and the result of
  \<open>A\<close> is lost instead of being returned in a report of length 1.
\<close>

theorem interrupt_loses_report_counterexample:
  "process_multiple_images_sigint (\<lambda>i. i = 1) module_constants all_succeed
       [''test/A.jpg'', ''test/B.jpg'', ''test/C.jpg'', ''test/D.jpg'']
       ''underwater_detections.json'' =
     (Inl KeyboardInterrupt,
      [LogStart 4, LogProcessing 1 4 ''test/A.jpg'', RemoteCall 0,
       LogTokens (Some 1200), LogSuccess 0])"
  by code_simp

text \<open>
  C6 (amended). With a non-positive \<open>max_retries\<close> the invoker makes no remote call and
  no sleep and returns \<^verbatim>\<open>None\<close>; nothing is raised. Under a non-positive
  \<^verbatim>\<open>MAX_RETRIES\<close> the batch then makes no remote call at all, starts every item, skips
  every item and still ends normally, with an empty report.
\<close>

theorem nonpositive_max_retries_returns_none:
  assumes "MAX_RETRIES cs \<le> 0"
  shows "generate_content_with_retry call (MAX_RETRIES cs) (INITIAL_DELAY cs) = (Inr None, []) \<and>
         fst (process_multiple_images cs w image_paths output_json_file) =
           Inr \<lparr>all_results = [], written = (if save_ok w then Some [] else None)\<rparr> \<and>
         attempted (snd (process_multiple_images cs w image_paths output_json_file)) = image_paths \<and>
         remote_calls (snd (process_multiple_images cs w image_paths output_json_file)) = 0"
proof -
  have inv: "generate_content_with_retry call (MAX_RETRIES cs) (INITIAL_DELAY cs) = (Inr None, [])"
    using assms by (simp add: generate_content_with_retry_def)
  have none: "item_data cs w ip = None" for ip
    using get_bounding_boxes_nonpositive[OF assms] by (simp add: item_data_def)
  then have nk: "\<not> kept cs w ip" for ip by (simp add: kept_def)
  then have "\<forall>ip \<in> set (enumerate 0 image_paths). \<not> unsized cs w ip"
    by (simp add: unsized_def)
  note c = process_multiple_images_complete[OF this, of output_json_file]
  have calls: "remote_calls (snd (process_multiple_images cs w image_paths output_json_file)) = 0"
  proof -
    let ?loop = "process_items cs w (length image_paths) (enumerate 0 image_paths) []"
    obtain r t where rt: "?loop = (r, t)" by (cases ?loop)
    have t: "remote_calls t = 0"
      using process_items_nonpositive[OF assms, of w "length image_paths" "enumerate 0 image_paths" "[]"] rt
      by simp
    show ?thesis
      unfolding process_multiple_images_unfold rt using t
      by (auto simp add: remote_calls_append split: sum.splits)
  qed
  show ?thesis using inv c calls nk by simp
qed

theorem nonpositive_max_retries_returns_none_witness:
  "fst (process_multiple_images \<lparr>MAX_RETRIES = 0, INITIAL_DELAY = 2\<rparr> second_fails
          [''test/A.jpg'', ''test/B.jpg''] ''underwater_detections.json'') =
     Inr \<lparr>all_results = [], written = Some []\<rparr> \<and>
   remote_calls (snd (process_multiple_images \<lparr>MAX_RETRIES = 0, INITIAL_DELAY = 2\<rparr> second_fails
          [''test/A.jpg'', ''test/B.jpg''] ''underwater_detections.json'')) = 0"
proof -
  have s: "save_ok second_fails" by (simp add: second_fails_def)
  have z: "MAX_RETRIES \<lparr>MAX_RETRIES = 0, INITIAL_DELAY = 2\<rparr> \<le> 0" by simp
  note t = nonpositive_max_retries_returns_none
            [OF z, of "\<lambda>k. Returns ()" second_fails
                "[''test/A.jpg'', ''test/B.jpg'']" "''underwater_detections.json''"]
  from t have a: "fst (process_multiple_images \<lparr>MAX_RETRIES = 0, INITIAL_DELAY = 2\<rparr> second_fails
          [''test/A.jpg'', ''test/B.jpg''] ''underwater_detections.json'') =
     Inr \<lparr>all_results = [], written = (if save_ok second_fails then Some [] else None)\<rparr>"
    by (elim conjE)
  from t have c: "remote_calls (snd (process_multiple_images \<lparr>MAX_RETRIES = 0, INITIAL_DELAY = 2\<rparr> second_fails
          [''test/A.jpg'', ''test/B.jpg''] ''underwater_detections.json'')) = 0"
    by (elim conjE)
  from a s have "fst (process_multiple_images \<lparr>MAX_RETRIES = 0, INITIAL_DELAY = 2\<rparr> second_fails
          [''test/A.jpg'', ''test/B.jpg''] ''underwater_detections.json'') =
     Inr \<lparr>all_results = [], written = Some []\<rparr>"
    by (simp only: if_True)
  with c show ?thesis by (intro conjI)
qed

text \<open>
  C6, the claim as stated, fails: with \<open>max_retries = 0\<close> the invoker returns \<^verbatim>\<open>None\<close>
  instead of raising, and a batch run under \<^verbatim>\<open>MAX_RETRIES = 0\<close> is not aborted: it
  starts its item, skips it, and writes a report.
\<close>

theorem zero_max_retries_counterexample:
  "generate_content_with_retry (\<lambda>k. Returns empty_list_reply) 0 2 = (Inr None, []) \<and>
   process_multiple_images \<lparr>MAX_RETRIES = 0, INITIAL_DELAY = 2\<rparr> all_succeed
       [''test/A.jpg''] ''underwater_detections.json'' =
     (Inr \<lparr>all_results = [], written = Some []\<rparr>,
      [LogStart 1, LogProcessing 1 1 ''test/A.jpg'',
       LogItemError ''test/A.jpg'' AttributeError, LogSkip,
       LogComplete 0 0 ''underwater_detections.json''])"
  by code_simp

end
